theory Spec2Isabelle
  imports Complex_Main "HOL-Library.AList" "HOL-Library.Sublist"
begin

section \<open>Paths, files and errors\<close>

text \<open>
  The picture extractor (\<^verbatim>\<open>src/plugins/picture_extractor.py\<close>) works on directories:
  it lists, creates and fills them.  A path is the list of its components below the root
  (click resolves every configured path to an absolute one), so the f-string
  \<^verbatim>\<open>f"{working}/input"\<close> is \<open>working @ [''input'']\<close>.  The file system is an association
  list from paths to nodes, in creation order, which is the order \<^verbatim>\<open>os.listdir\<close> reports.
  A file carries a flag saying whether the process may open it, and its content.
\<close>

type_synonym path = "string list"

datatype 'a node = Dir | File bool 'a

type_synonym 'a filesys = "(path \<times> 'a node) list"

datatype error =
    UsageError string
  | Abort
  | FileNotFoundError
  | FileExistsError
  | NotADirectoryError
  | IsADirectoryError
  | PermissionError
  | SameFileError
  | ShutilError
  | ZeroDivisionError

definition lookup :: "'a filesys \<Rightarrow> path \<Rightarrow> 'a node option" where
  "lookup fs p = (if p = [] then Some Dir else map_of fs p)"

definition path_exists :: "'a filesys \<Rightarrow> path \<Rightarrow> bool" where
  "path_exists fs p = (lookup fs p \<noteq> None)"

definition isdir :: "'a filesys \<Rightarrow> path \<Rightarrow> bool" where
  "isdir fs p = (lookup fs p = Some Dir)"

definition children :: "'a filesys \<Rightarrow> path \<Rightarrow> string list" where
  "children fs p = map (\<lambda>e. last (fst e)) (filter (\<lambda>e. fst e \<noteq> [] \<and> butlast (fst e) = p) fs)"

definition listdir :: "'a filesys \<Rightarrow> path \<Rightarrow> error + string list" where
  "listdir fs p =
     (case lookup fs p of
        None \<Rightarrow> Inl FileNotFoundError
      | Some (File r c) \<Rightarrow> Inl NotADirectoryError
      | Some Dir \<Rightarrow> Inr (children fs p))"


definition basename :: "path \<Rightarrow> path" where
  "basename p = (if p = [] then [] else [last p])"

definition mkdir :: "'a filesys \<Rightarrow> path \<Rightarrow> error + 'a filesys" where
  "mkdir fs p =
     (if path_exists fs p then Inl FileExistsError
      else case lookup fs (butlast p) of
             None \<Rightarrow> Inl FileNotFoundError
           | Some (File r c) \<Rightarrow> Inl NotADirectoryError
           | Some Dir \<Rightarrow> Inr (AList.update p Dir fs))"

text \<open>
  \<^verbatim>\<open>os.makedirs(name, exist_ok)\<close>: the missing ancestors first (a \<^verbatim>\<open>FileExistsError\<close> of
  that recursive call is passed over), then \<^verbatim>\<open>mkdir(name)\<close>, whose error is dropped only
  when \<^verbatim>\<open>exist_ok\<close> holds and the name is a directory.
\<close>

function makedirs :: "bool \<Rightarrow> path \<Rightarrow> 'a filesys \<Rightarrow> error + 'a filesys" where
  "makedirs exist_ok p fs =
     (case (if p \<noteq> [] \<and> butlast p \<noteq> [] \<and> \<not> path_exists fs (butlast p)
            then (case makedirs exist_ok (butlast p) fs of
                    Inl FileExistsError \<Rightarrow> Inr fs
                  | Inl e \<Rightarrow> Inl e
                  | Inr fs1 \<Rightarrow> Inr fs1)
            else Inr fs) of
        Inl e \<Rightarrow> Inl e
      | Inr fs1 \<Rightarrow>
          (case mkdir fs1 p of
             Inl e \<Rightarrow> if exist_ok \<and> isdir fs1 p then Inr fs1 else Inl e
           | Inr fs2 \<Rightarrow> Inr fs2))"
  by pat_completeness auto
termination
  by (relation "measure (\<lambda>(e, p, fs). length p)") auto

declare makedirs.simps [simp del]

text \<open>
  \<^verbatim>\<open>shutil.copy(src, dst)\<close>: into \<open>dst\<close> under the source's base name when \<open>dst\<close> is a
  directory; \<^verbatim>\<open>copyfile\<close> refuses to copy a file onto itself, opens the source for reading
  and the target for writing.
\<close>

definition shutil_copy :: "path \<Rightarrow> path \<Rightarrow> 'a filesys \<Rightarrow> error + 'a filesys" where
  "shutil_copy src dst0 fs =
     (let dst = (if isdir fs dst0 then dst0 @ basename src else dst0) in
      if src = dst \<and> path_exists fs src then Inl SameFileError
      else case lookup fs src of
             None \<Rightarrow> Inl FileNotFoundError
           | Some Dir \<Rightarrow> Inl IsADirectoryError
           | Some (File r c) \<Rightarrow>
               if \<not> r then Inl PermissionError
               else (case lookup fs dst of
                       Some Dir \<Rightarrow> Inl IsADirectoryError
                     | Some (File r' c') \<Rightarrow>
                         if r' then Inr (AList.update dst (File True c) fs)
                         else Inl PermissionError
                     | None \<Rightarrow>
                         (case lookup fs (butlast dst) of
                            None \<Rightarrow> Inl FileNotFoundError
                          | Some (File r' c') \<Rightarrow> Inl NotADirectoryError
                          | Some Dir \<Rightarrow> Inr (AList.update dst (File True c) fs))))"

text \<open>
  \<^verbatim>\<open>shutil.move(src, dst)\<close>: the target is \<open>dst\<close>, or the source's base name inside it when
  \<open>dst\<close> is a directory (an error if that exists already); then \<^verbatim>\<open>os.rename\<close>, which takes
  the node, and for a directory everything below it, to the target.
\<close>

definition shutil_move :: "path \<Rightarrow> path \<Rightarrow> 'a filesys \<Rightarrow> error + 'a filesys" where
  "shutil_move src dst0 fs =
     (let real_dst = (if isdir fs dst0 then dst0 @ basename src else dst0) in
      if isdir fs dst0 \<and> src = dst0 then Inr fs
      else if isdir fs dst0 \<and> path_exists fs real_dst then Inl ShutilError
      else case lookup fs src of
             None \<Rightarrow> Inl FileNotFoundError
           | Some (File r c) \<Rightarrow>
               if src = real_dst then Inr fs
               else (case lookup fs real_dst of
                       Some Dir \<Rightarrow> Inl IsADirectoryError
                     | Some (File r' c') \<Rightarrow>
                         Inr (AList.update real_dst (File r c) (AList.delete src fs))
                     | None \<Rightarrow>
                         (case lookup fs (butlast real_dst) of
                            None \<Rightarrow> Inl FileNotFoundError
                          | Some (File r' c') \<Rightarrow> Inl NotADirectoryError
                          | Some Dir \<Rightarrow>
                              Inr (AList.update real_dst (File r c) (AList.delete src fs))))
           | Some Dir \<Rightarrow>
               if prefix src real_dst then Inl ShutilError
               else (case lookup fs real_dst of
                       Some n \<Rightarrow> Inl FileExistsError
                     | None \<Rightarrow>
                         (case lookup fs (butlast real_dst) of
                            None \<Rightarrow> Inl FileNotFoundError
                          | Some (File r' c') \<Rightarrow> Inl NotADirectoryError
                          | Some Dir \<Rightarrow>
                              Inr (map (\<lambda>e. (if prefix src (fst e)
                                                then real_dst @ drop (length src) (fst e)
                                                else fst e, snd e)) fs))))"

text \<open>
  \<^verbatim>\<open>cv2.imwrite(fname, frame)\<close> reports a failure by its return value, which the sampler
  ignores: nothing is written when the directory is missing or the name is a directory.
  The file written is identified with the frame it encodes.
\<close>

definition writable :: "'a filesys \<Rightarrow> path \<Rightarrow> bool" where
  "writable fs p =
     (p \<noteq> [] \<and> isdir fs (butlast p) \<and>
      (case lookup fs p of None \<Rightarrow> True | Some Dir \<Rightarrow> False | Some (File r c) \<Rightarrow> r))"

definition imwrite :: "path \<Rightarrow> 'a \<Rightarrow> 'a filesys \<Rightarrow> 'a filesys" where
  "imwrite p img fs = (if writable fs p then AList.update p (File True img) fs else fs)"

section \<open>Strings\<close>

definition digit_char :: "nat \<Rightarrow> char" where
  "digit_char d = ''0123456789'' ! d"

text \<open>\<^verbatim>\<open>str(i)\<close> and \<^verbatim>\<open>f"{i}"\<close> of a non-negative integer.\<close>

fun str_nat :: "nat \<Rightarrow> string" where
  "str_nat n = (if n < 10 then [digit_char n]
                else str_nat (n div 10) @ [digit_char (n mod 10)])"

declare str_nat.simps [simp del]

text \<open>\<^verbatim>\<open>f"{i:05}"\<close>: zeros in front up to a width of five, no digit dropped.\<close>

definition fmt05 :: "nat \<Rightarrow> string" where
  "fmt05 i = replicate (5 - length (str_nat i)) (CHR ''0'') @ str_nat i"

text \<open>An absolute path as the string the messages show.\<close>

definition render :: "path \<Rightarrow> string" where
  "render p = (if p = [] then ''/'' else concat (map (\<lambda>c. CHR ''/'' # c) p))"

fun render_rel :: "path \<Rightarrow> string" where
  "render_rel [] = []"
| "render_rel [c] = c"
| "render_rel (c # cs) = c @ ''/'' @ render_rel cs"

section \<open>FrameSampler: \<^verbatim>\<open>extract_video\<close>\<close>

definition frame_fname :: "nat \<Rightarrow> string" where
  "frame_fname frame_index = fmt05 frame_index @ ''.jpg''"

text \<open>
  The capture object is the list of frames still to be read; \<^verbatim>\<open>v.read()\<close> on the empty
  list is \<^verbatim>\<open>ret = False\<close>.  \<^verbatim>\<open>frame_count % n\<close> raises for \<open>n = 0\<close>.
\<close>

fun extract_video_loop ::
  "'a list \<Rightarrow> path \<Rightarrow> int \<Rightarrow> nat \<Rightarrow> nat \<Rightarrow> 'a filesys \<Rightarrow> error + 'a filesys" where
  "extract_video_loop [] output n frame_index frame_count fs = Inr fs"
| "extract_video_loop (frame # v) output n frame_index frame_count fs =
     (if n = 0 then Inl ZeroDivisionError
      else if int frame_count mod n = 0
      then extract_video_loop v output n (frame_index + 1) (frame_count + 1)
             (imwrite (output @ [frame_fname frame_index]) frame fs)
      else extract_video_loop v output n frame_index (frame_count + 1) fs)"

definition extract_video :: "'a list \<Rightarrow> path \<Rightarrow> int \<Rightarrow> 'a filesys \<Rightarrow> error + 'a filesys" where
  "extract_video v output n fs = extract_video_loop v output n 0 0 fs"

section \<open>The session: configuration, console and prompts\<close>

text \<open>
  The state the commands share: the file system, the process's current directory, the
  three entries of \<^verbatim>\<open>ctx['PES']\<close>, the lines written with \<^verbatim>\<open>click.echo\<close> and the answers
  the caller is still to give at the prompts.  \<open>chosen\<close> records, for \<^verbatim>\<open>extract\<close>, the index
  and the unit of every iteration begun; the program keeps no such list, it is there to
  state what a run did.
\<close>

datatype answer = ABool bool | AInt int | APath path | AText string

record 'a world =
  files :: "'a filesys"
  curdir :: path
  ctx_working :: "path option"
  ctx_source :: "path option"
  ctx_dest :: "path option"
  console :: "string list"
  answers :: "answer list"
  chosen :: "(nat \<times> string) list"

type_synonym ('r, 'a) cmd = "(error + 'r) \<times> 'a world"

text \<open>Sequencing: an exception ends the command in the state it was raised in.\<close>

definition and_then :: "('r, 'a) cmd \<Rightarrow> ('r \<Rightarrow> 'a world \<Rightarrow> ('s, 'a) cmd) \<Rightarrow> ('s, 'a) cmd" where
  "and_then m k = (case m of (Inl e, w) \<Rightarrow> (Inl e, w) | (Inr r, w) \<Rightarrow> k r w)"

definition on_files :: "('a filesys \<Rightarrow> error + 'a filesys) \<Rightarrow> 'a world \<Rightarrow> (unit, 'a) cmd" where
  "on_files f w =
     (case f (files w) of Inl e \<Rightarrow> (Inl e, w) | Inr fs' \<Rightarrow> (Inr (), w\<lparr>files := fs'\<rparr>))"

definition echo :: "string \<Rightarrow> 'a world \<Rightarrow> 'a world" where
  "echo s w = w\<lparr>console := console w @ [s]\<rparr>"

primrec for_each :: "('x \<Rightarrow> 'a world \<Rightarrow> (unit, 'a) cmd) \<Rightarrow> 'x list \<Rightarrow> 'a world \<Rightarrow> (unit, 'a) cmd" where
  "for_each body [] w = (Inr (), w)"
| "for_each body (x # xs) w =
     (case body x w of (Inl e, w1) \<Rightarrow> (Inl e, w1) | (Inr u, w1) \<Rightarrow> for_each body xs w1)"

text \<open>A list comprehension whose condition may raise.\<close>

primrec filter_raising :: "('x \<Rightarrow> error + bool) \<Rightarrow> 'x list \<Rightarrow> error + 'x list" where
  "filter_raising c [] = Inr []"
| "filter_raising c (x # xs) =
     (case c x of
        Inl e \<Rightarrow> Inl e
      | Inr b \<Rightarrow> (case filter_raising c xs of
                   Inl e \<Rightarrow> Inl e
                 | Inr ys \<Rightarrow> Inr (if b then x # ys else ys)))"

definition chdir :: "path \<Rightarrow> 'a world \<Rightarrow> (unit, 'a) cmd" where
  "chdir p w =
     (case lookup (files w) p of
        None \<Rightarrow> (Inl FileNotFoundError, w)
      | Some (File r c) \<Rightarrow> (Inl NotADirectoryError, w)
      | Some Dir \<Rightarrow> (Inr (), w\<lparr>curdir := p\<rparr>))"

text \<open>
  \<^verbatim>\<open>click.prompt(text, type=t)\<close> asks until an answer converts to \<open>t\<close>; the end of the
  input aborts the command.
\<close>

fun prompt :: "(answer \<Rightarrow> 'r option) \<Rightarrow> answer list \<Rightarrow> (error + 'r) \<times> answer list" where
  "prompt conv [] = (Inl Abort, [])"
| "prompt conv (a # as) = (case conv a of Some r \<Rightarrow> (Inr r, as) | None \<Rightarrow> prompt conv as)"

definition click_prompt :: "(answer \<Rightarrow> 'r option) \<Rightarrow> 'a world \<Rightarrow> ('r, 'a) cmd" where
  "click_prompt conv w =
     (case prompt conv (answers w) of (r, rest) \<Rightarrow> (r, w\<lparr>answers := rest\<rparr>))"

text \<open>\<^verbatim>\<open>click.BOOL\<close>, \<^verbatim>\<open>click.Path()\<close>, \<^verbatim>\<open>click.IntRange(lo, hi)\<close>,
  \<^verbatim>\<open>click.Path(dir_okay=False, exists=True)\<close> (relative to the current directory, and
  readable) and \<^verbatim>\<open>click.Choice(available)\<close>.\<close>

fun conv_bool :: "answer \<Rightarrow> bool option" where
  "conv_bool (ABool b) = Some b"
| "conv_bool a = None"

fun conv_expr :: "answer \<Rightarrow> string option" where
  "conv_expr (AText s) = Some s"
| "conv_expr a = None"

fun conv_range :: "int \<Rightarrow> int \<Rightarrow> answer \<Rightarrow> int option" where
  "conv_range lo hi (AInt i) = (if lo \<le> i \<and> i \<le> hi then Some i else None)"
| "conv_range lo hi a = None"

fun conv_file :: "'a filesys \<Rightarrow> path \<Rightarrow> answer \<Rightarrow> path option" where
  "conv_file fs cur (APath p) =
     (case lookup fs (cur @ p) of Some (File True c) \<Rightarrow> Some p | _ \<Rightarrow> None)"
| "conv_file fs cur a = None"

fun conv_choice :: "string set \<Rightarrow> answer \<Rightarrow> string option" where
  "conv_choice available (AText s) = (if s \<in> available then Some s else None)"
| "conv_choice available a = None"

section \<open>WorkspaceConfig: \<^verbatim>\<open>config_default_locations\<close>\<close>





section \<open>MediaClassifier: \<^verbatim>\<open>istype\<close>\<close>

text \<open>
  \<^verbatim>\<open>filetype.guess(path)\<close> is a library call: it opens the file, reads its first bytes and
  matches them against the known signatures.  \<open>sniff\<close> stands for the matching (the MIME
  type of a content, if it has a known signature); opening the file is \<^verbatim>\<open>open(path, 'rb')\<close>
  and raises for a missing file, a directory and a file the process may not read.
\<close>

definition guess :: "('a \<Rightarrow> string option) \<Rightarrow> 'a filesys \<Rightarrow> path \<Rightarrow> error + string option" where
  "guess sniff fs p =
     (case lookup fs p of
        None \<Rightarrow> Inl FileNotFoundError
      | Some Dir \<Rightarrow> Inl IsADirectoryError
      | Some (File r c) \<Rightarrow> if r then Inr (sniff c) else Inl PermissionError)"

text \<open>
  \<^verbatim>\<open>istype = lambda f, t: ((k := filetype.guess(os.path.join(source, f))) and
  k.mime.startswith(t))\<close>; the result is used for its truth value only.
\<close>

definition istype ::
  "('a \<Rightarrow> string option) \<Rightarrow> 'a filesys \<Rightarrow> path \<Rightarrow> path \<Rightarrow> string \<Rightarrow> error + bool" where
  "istype sniff fs source f t =
     (case guess sniff fs (source @ f) of
        Inl e \<Rightarrow> Inl e
      | Inr None \<Rightarrow> Inr False
      | Inr (Some mime) \<Rightarrow> Inr (prefix t mime))"

section \<open>StagingPlanner: \<^verbatim>\<open>setup\<close>\<close>

definition not_a_video_msg :: "path \<Rightarrow> string" where
  "not_a_video_msg vid = ''The file you entered ('' @ render_rel vid @ '') is not a video!''"

lemma prompt_shorter: "prompt conv as = (Inr r, rest) \<Longrightarrow> length rest < length as"
  by (induction as) (auto split: option.splits)

lemma click_prompt_shorter:
  "click_prompt conv w = (Inr r, w1) \<Longrightarrow> length (answers w1) < length (answers w)"
  by (auto simp: click_prompt_def split: prod.splits dest: prompt_shorter)

text \<open>The selection loop of lines 143 to 154: \<open>i\<close> counts the videos accepted so far.\<close>

function select_videos ::
  "('a \<Rightarrow> string option) \<Rightarrow> path \<Rightarrow> int \<Rightarrow> path list \<Rightarrow> int \<Rightarrow> 'a world
     \<Rightarrow> (path list, 'a) cmd" where
  "select_videos sniff source ext_vid sel_videos i w =
     (if i < ext_vid then
        (case click_prompt (conv_file (files w) (curdir w)) w of
           (Inl e, w1) \<Rightarrow> (Inl e, w1)
         | (Inr vid, w1) \<Rightarrow>
             (case istype sniff (files w1) source vid ''video'' of
                Inl e \<Rightarrow> (Inl e, w1)
              | Inr True \<Rightarrow> select_videos sniff source ext_vid (sel_videos @ [vid]) (i + 1) w1
              | Inr False \<Rightarrow>
                  select_videos sniff source ext_vid sel_videos i
                    (echo (not_a_video_msg vid) w1)))
      else (Inr sel_videos, w))"
  by pat_completeness auto
termination
  by (relation "measure (\<lambda>(sniff, source, ext_vid, sel_videos, i, w). length (answers w))")
     (auto simp: echo_def dest: click_prompt_shorter[OF sym])

declare select_videos.simps [simp del]

text \<open>
  Lines 112 to 155: classify the source directory, ask for the image pattern and the
  videos.  \<open>glob\<close> stands for \<^verbatim>\<open>glob.glob(img_expr, root_dir=source)\<close>, the paths below the
  source that match the pattern.
\<close>

definition setup_select ::
  "('a \<Rightarrow> string option) \<Rightarrow> (string \<Rightarrow> 'a filesys \<Rightarrow> path \<Rightarrow> path list) \<Rightarrow> path \<Rightarrow> 'a world
     \<Rightarrow> (path list \<times> path list, 'a) cmd" where
  "setup_select sniff glob source w0 =
     and_then (listdir (files w0) source, w0) (\<lambda>source_files w.
     and_then (filter_raising (\<lambda>f. istype sniff (files w) source [f] ''image'') source_files, w)
       (\<lambda>images w.
     and_then (filter_raising (\<lambda>f. istype sniff (files w) source [f] ''video'') source_files, w)
       (\<lambda>videos w.
     and_then (click_prompt conv_bool
                (echo (''Found '' @ str_nat (length images) @ '' images and ''
                       @ str_nat (length videos) @ '' videos in the source directory.''
                       @ [CHR 0x0A]) w))
       (\<lambda>ext_img w.
     and_then (if ext_img
               then and_then (click_prompt conv_expr w) (\<lambda>img_expr w.
                      (filter_raising (\<lambda>img. istype sniff (files w) source img ''image'')
                         (glob img_expr (files w) source), w))
               else (Inr [], w))
       (\<lambda>sel_images w.
     and_then (click_prompt (conv_range 0 (int (length videos)))
                (echo (''Selected '' @ str_nat (length sel_images) @ '' images.''
                       @ [CHR 0x0A]) w))
       (\<lambda>ext_vid w.
     and_then (select_videos sniff source ext_vid [] 0
                (if 1 \<le> ext_vid
                 then echo (concat (map (\<lambda>v. ''  '' @ v) videos)) (echo ''Available videos:'' w)
                 else w))
       (\<lambda>sel_videos w.
          (Inr (sel_images, sel_videos),
           echo (''Selected '' @ str_nat (length sel_videos) @ '' videos.'' @ [CHR 0x0A]) w))))))))"

definition ufunc :: "bool \<Rightarrow> path \<Rightarrow> path \<Rightarrow> 'a filesys \<Rightarrow> error + 'a filesys" where
  "ufunc move = (if move then shutil_move else shutil_copy)"

definition transferred_msg :: "bool \<Rightarrow> nat \<Rightarrow> string \<Rightarrow> string" where
  "transferred_msg move k what =
     (if move then ''Moved'' else ''Copied'') @ '' '' @ str_nat k @ '' '' @ what
       @ '' to working directory.'' @ [CHR 0x0A]"

text \<open>Lines 157 to 184: the directories first, then the images, then the videos.\<close>

definition setup_stage ::
  "bool \<Rightarrow> path \<Rightarrow> path \<Rightarrow> path list \<Rightarrow> path list \<Rightarrow> 'a world \<Rightarrow> (unit, 'a) cmd" where
  "setup_stage move working source sel_images sel_videos w0 =
     and_then (chdir working w0) (\<lambda>u w.
     and_then (if sel_images \<noteq> []
               then on_files (makedirs True (working @ [''input'', ''images''])) w
               else (Inr (), w)) (\<lambda>u w.
     and_then (for_each (\<lambda>i. on_files (makedirs True (working @ [''input'', ''video'' @ str_nat i])))
                 [0..<length sel_videos] w) (\<lambda>u w.
     and_then (on_files (makedirs True (working @ [''output''])) w) (\<lambda>u w.
     and_then (for_each (\<lambda>img. on_files (ufunc move (source @ img)
                                            (working @ [''input'', ''images''] @ img)))
                 sel_images w) (\<lambda>u w.
     and_then (for_each (\<lambda>(i, vid). on_files (ufunc move (source @ vid)
                                            (working @ [''input'', ''video'' @ str_nat i] @ vid)))
                 (zip [0..<length sel_videos] sel_videos)
                 (echo (transferred_msg move (length sel_images) ''images'') w)) (\<lambda>u w.
       (Inr (), echo (transferred_msg move (length sel_videos) ''videos'') w)))))))"

definition no_source_msg :: string where
  "no_source_msg = ''No source directory set. Please use the 'config' command to set the source directory before running 'setup'.''"

definition no_working_msg :: string where
  "no_working_msg = ''No working directory set. Please use the 'config' command to set the working directory before running 'setup'.''"

text \<open>The command \<^verbatim>\<open>setup\<close> (the name is a keyword of Isabelle, hence the suffix).\<close>

definition setup_cmd ::
  "('a \<Rightarrow> string option) \<Rightarrow> (string \<Rightarrow> 'a filesys \<Rightarrow> path \<Rightarrow> path list) \<Rightarrow> bool \<Rightarrow> 'a world
     \<Rightarrow> (unit, 'a) cmd" where
  "setup_cmd sniff glob move w0 =
     (case ctx_source w0 of
        None \<Rightarrow> (Inl (UsageError no_source_msg), w0)
      | Some source \<Rightarrow>
     (case ctx_working w0 of
        None \<Rightarrow> (Inl (UsageError no_working_msg), w0)
      | Some working \<Rightarrow>
          and_then (chdir source w0) (\<lambda>u w.
          and_then (setup_select sniff glob source w) (\<lambda>sel w.
          and_then (setup_stage move working source (fst sel) (snd sel) w) (\<lambda>u w.
            chdir (curdir w0) w)))))"

section \<open>SetExtractor: \<^verbatim>\<open>extract\<close>\<close>

definition not_configured_msg :: string where
  "not_configured_msg = ''The working directory has not been properly configured. Please run the 'setup' command before running 'extract'.''"

definition no_material_msg :: string where
  "no_material_msg = ''The working directory contains no input material. Please check that you correctly ran the 'setup' command.''"

definition no_files_msg :: "path \<Rightarrow> string \<Rightarrow> string" where
  "no_files_msg working choice = ''No files exist in '' @ render working @ ''/input/'' @ choice"

text \<open>
  \<^verbatim>\<open>cv2.VideoCapture(vpath)\<close> followed by the reads of \<^verbatim>\<open>extract_video\<close>: \<open>decode\<close> gives the
  frames of a video file's content; a capture that could not be opened yields no frame.
\<close>

definition video_capture :: "('a \<Rightarrow> 'a list) \<Rightarrow> 'a filesys \<Rightarrow> path \<Rightarrow> 'a list" where
  "video_capture decode fs vpath =
     (case lookup fs vpath of Some (File True c) \<Rightarrow> decode c | _ \<Rightarrow> [])"

text \<open>Lines 264 to 278: the body of one iteration, after the choice.\<close>

definition extract_set ::
  "('a \<Rightarrow> 'a list) \<Rightarrow> path \<Rightarrow> nat \<Rightarrow> string \<Rightarrow> 'a world \<Rightarrow> (unit, 'a) cmd" where
  "extract_set decode working i choice w0 =
     and_then (on_files (makedirs True (working @ [''output'', ''set'' @ str_nat i])) w0) (\<lambda>u w.
       if choice = ''images'' then
         and_then (listdir (files w) (working @ [''input'', ''images'']), w) (\<lambda>imgs w.
           for_each (\<lambda>img. on_files (shutil_copy (working @ [''input'', ''images'', img])
                                       (working @ [''output'', ''set'' @ str_nat i, img])))
             imgs w)
       else if prefix ''video'' choice then
         and_then (listdir (files w) (working @ [''input'', choice]), w) (\<lambda>vname w.
           case vname of
             [] \<Rightarrow> (Inl (UsageError (no_files_msg working choice)), w)
           | v # vs \<Rightarrow>
               on_files (extract_video
                           (video_capture decode (files w) (working @ [''input'', choice, v]))
                           (working @ [''output'', ''set'' @ str_nat i]) 30) w)
       else (Inr (), w))"

text \<open>Lines 257 to 263: the loop over \<^verbatim>\<open>range(set_count)\<close>, with the set \<open>available\<close>.\<close>

fun extract_loop ::
  "('a \<Rightarrow> 'a list) \<Rightarrow> path \<Rightarrow> nat list \<Rightarrow> string set \<Rightarrow> 'a world \<Rightarrow> (unit, 'a) cmd" where
  "extract_loop decode working [] available w = (Inr (), w)"
| "extract_loop decode working (i # rest) available w =
     (case click_prompt (conv_choice available) w of
        (Inl e, w1) \<Rightarrow> (Inl e, w1)
      | (Inr choice, w1) \<Rightarrow>
          (case extract_set decode working i choice (w1\<lparr>chosen := chosen w1 @ [(i, choice)]\<rparr>) of
             (Inl e, w2) \<Rightarrow> (Inl e, w2)
           | (Inr u, w2) \<Rightarrow> extract_loop decode working rest (available - {choice}) w2))"

text \<open>The command \<^verbatim>\<open>extract\<close> (again a keyword of Isabelle).\<close>

definition extract_cmd :: "('a \<Rightarrow> 'a list) \<Rightarrow> 'a world \<Rightarrow> (unit, 'a) cmd" where
  "extract_cmd decode w0 =
     (case ctx_working w0 of
        None \<Rightarrow> (Inl (UsageError no_working_msg), w0)
      | Some working \<Rightarrow>
          and_then (listdir (files w0) working, w0) (\<lambda>l1 w.
          and_then (listdir (files w) working, w) (\<lambda>l2 w.
            let inp = (''input'' \<in> set l1); out = (''output'' \<in> set l2) in
            if \<not> inp \<and> \<not> out then (Inl (UsageError not_configured_msg), w)
            else
              and_then (listdir (files w) (working @ [''input'']), w) (\<lambda>l3 w.
              and_then (listdir (files w) (working @ [''input'']), w) (\<lambda>l4 w.
                let videos = length (filter (prefix ''video'') l3);
                    images = (''images'' \<in> set l4);
                    max_sets = videos + (if images then 1 else 0) in
                if max_sets = 0 then (Inl (UsageError no_material_msg), w)
                else
                  and_then (click_prompt (conv_range 0 (int max_sets)) w) (\<lambda>set_count w.
                  and_then (listdir (files w) (working @ [''input'']), w) (\<lambda>l5 w.
                    extract_loop decode working [0..<nat set_count] (set l5) w)))))))"

section \<open>Notions used in the statements\<close>

text \<open>
  The number of frames the sampler still skips before it writes the next one, when
  \<open>cnt\<close> frames have been read; and the number a decimal string denotes.
\<close>

definition gap :: "nat \<Rightarrow> nat \<Rightarrow> nat" where
  "gap n cnt = (n - cnt mod n) mod n"

definition digit_val :: "char \<Rightarrow> nat" where
  "digit_val c = length (takeWhile (\<lambda>d. d \<noteq> c) ''0123456789'')"

definition parse_nat :: "string \<Rightarrow> nat" where
  "parse_nat s = foldl (\<lambda>a c. 10 * a + digit_val c) 0 s"

text \<open>
  Concrete inputs for the examples: a session that starts with nothing configured, a
  classifier that reads a three-letter signature, and a small file system with a
  source directory \<^verbatim>\<open>/s\<close>, an empty working directory \<^verbatim>\<open>/w\<close> and the directory
  \<^verbatim>\<open>/home\<close> the commands are run from.
\<close>

definition session :: "'a filesys \<Rightarrow> answer list \<Rightarrow> 'a world" where
  "session fs ans = \<lparr>files = fs, curdir = [], ctx_working = None, ctx_source = None,
     ctx_dest = None, console = [], answers = ans, chosen = []\<rparr>"

definition by_magic :: "string \<Rightarrow> string option" where
  "by_magic c = (if prefix ''JPG'' c then Some ''image/jpeg''
                 else if prefix ''MP4'' c then Some ''video/mp4'' else None)"

definition demo_fs :: "string filesys" where
  "demo_fs = [([''home''], Dir), ([''s''], Dir), ([''s'', ''notes.txt''], File True ''hello''),
     ([''s'', ''clip.mp4''], File True ''MP4 clip''), ([''s'', ''a.jpg''], File True ''JPG a''),
     ([''s'', ''second.mp4''], File True ''MP4 more''), ([''w''], Dir)]"

text \<open>A stand-in for \<^verbatim>\<open>glob.glob\<close>: the pattern \<^verbatim>\<open>*\<close> matches every entry of the directory.\<close>

definition star_glob :: "string \<Rightarrow> 'a filesys \<Rightarrow> path \<Rightarrow> path list" where
  "star_glob expr fs root_dir =
     (if expr = ''*'' then map (\<lambda>c. [c]) (children fs root_dir) else [])"

text \<open>
  A working directory as staging leaves it, with one image and one video of four frames
  (the frames of the toy video format are its characters); and one whose video unit
  is empty.
\<close>

definition demo_staged :: "string filesys" where
  "demo_staged = [([''w''], Dir), ([''w'', ''input''], Dir), ([''w'', ''input'', ''images''], Dir),
     ([''w'', ''input'', ''video0''], Dir), ([''w'', ''output''], Dir),
     ([''w'', ''input'', ''images'', ''a.jpg''], File True ''JPG a''),
     ([''w'', ''input'', ''video0'', ''clip.mp4''], File True ''MP4 clip'')]"

definition demo_decode :: "string \<Rightarrow> string list" where
  "demo_decode c = (if prefix ''MP4 '' c then map (\<lambda>ch. [ch]) (drop 4 c) else [])"






definition add_dirs :: "'a filesys \<Rightarrow> path list \<Rightarrow> 'a filesys" where
  "add_dirs fs ds = fs @ map (\<lambda>p. (p, Dir)) ds"



text \<open>The example session: source \<^verbatim>\<open>/s\<close>, working directory \<^verbatim>\<open>/w\<close>, run from \<^verbatim>\<open>/home\<close>.\<close>

definition demo_session :: "answer list \<Rightarrow> string world" where
  "demo_session ans = (session demo_fs ans)\<lparr>curdir := [''home''], ctx_working := Some [''w''],
     ctx_source := Some [''s'']\<rparr>"

section \<open>Lemmas: files and names\<close>

lemma lookup_update:
  "k \<noteq> [] \<Longrightarrow> lookup (AList.update k v fs) q = (if q = k then Some v else lookup fs q)"
  by (simp add: lookup_def update_conv')

lemma imwrite_other: "q \<noteq> p \<Longrightarrow> lookup (imwrite p img fs) q = lookup fs q"
  by (auto simp: imwrite_def writable_def lookup_update)

lemma imwrite_same: "writable fs p \<Longrightarrow> lookup (imwrite p img fs) p = Some (File True img)"
  by (auto simp: imwrite_def writable_def lookup_update)

lemma writable_imwrite:
  "q \<noteq> p \<Longrightarrow> writable fs q \<Longrightarrow> writable (imwrite p img fs) q"
  apply (auto simp: writable_def isdir_def imwrite_other)
  apply (auto simp: imwrite_def lookup_update writable_def isdir_def split: if_splits)
  done

lemma fold_imwrite_other:
  "q \<notin> pth ` set js \<Longrightarrow> lookup (fold (\<lambda>j. imwrite (pth j) (img j)) js fs) q = lookup fs q"
  by (induction js arbitrary: fs) (auto simp: imwrite_other)

lemma fold_imwrite_same:
  "j \<in> set js \<Longrightarrow> distinct js \<Longrightarrow> inj_on pth (set js) \<Longrightarrow>
   (\<forall>i \<in> set js. writable fs (pth i)) \<Longrightarrow>
   lookup (fold (\<lambda>j. imwrite (pth j) (img j)) js fs) (pth j) = Some (File True (img j))"
proof (induction js arbitrary: fs)
  case Nil
  then show ?case by simp
next
  case (Cons a js)
  show ?case
  proof (cases "j = a")
    case True
    have "pth a \<notin> pth ` set js" using Cons.prems by (auto simp: inj_on_def)
    then show ?thesis using True Cons.prems
      by (simp add: fold_imwrite_other imwrite_same)
  next
    case False
    have w: "\<forall>i \<in> set js. writable (imwrite (pth a) (img a) fs) (pth i)"
      using Cons.prems by (auto simp: inj_on_def intro!: writable_imwrite)
    show ?thesis using False Cons.prems Cons.IH[OF _ _ _ w] by (auto simp: inj_on_def)
  qed
qed

lemma str_nat_small: "n < 10 \<Longrightarrow> str_nat n = [digit_char n]"
  by (simp add: str_nat.simps)

lemma str_nat_big: "10 \<le> n \<Longrightarrow> str_nat n = str_nat (n div 10) @ [digit_char (n mod 10)]"
  by (subst str_nat.simps) simp

lemma replicate_num: "replicate (numeral k) x = x # replicate (numeral k - 1) x"
  by (simp add: numeral_eq_Suc)

lemmas str_eval = fmt05_def frame_fname_def str_nat_small str_nat_big digit_char_def
  replicate_num

lemma digit_val_digit_char: "d < 10 \<Longrightarrow> digit_val (digit_char d) = d"
proof -
  assume "d < 10"
  then have "d = 0 \<or> d = 1 \<or> d = 2 \<or> d = 3 \<or> d = 4 \<or> d = 5 \<or> d = 6
    \<or> d = 7 \<or> d = 8 \<or> d = 9" by arith
  then show ?thesis
    by (elim disjE) (simp_all add: digit_val_def digit_char_def)
qed

lemma parse_nat_snoc: "parse_nat (s @ [c]) = 10 * parse_nat s + digit_val c"
  by (simp add: parse_nat_def)

lemma parse_nat_str_nat: "parse_nat (str_nat n) = n"
proof (induction n rule: str_nat.induct)
  case (1 n)
  show ?case
  proof (cases "n < 10")
    case True
    then show ?thesis by (simp add: str_nat_small parse_nat_def digit_val_digit_char)
  next
    case False
    then show ?thesis using 1
      by (simp add: str_nat_big parse_nat_snoc digit_val_digit_char)
  qed
qed

lemma parse_nat_zeros: "parse_nat (replicate k (CHR ''0'') @ s) = parse_nat s"
proof -
  have "foldl (\<lambda>a c. 10 * a + digit_val c) 0 (replicate k (CHR ''0'')) = 0"
    by (induction k) (simp_all add: digit_val_def)
  then show ?thesis by (simp add: parse_nat_def)
qed

lemma parse_nat_fmt05: "parse_nat (fmt05 i) = i"
  by (simp add: fmt05_def parse_nat_zeros parse_nat_str_nat)

lemma inj_fmt05: "fmt05 i = fmt05 j \<Longrightarrow> i = j"
  by (metis parse_nat_fmt05)


lemma inj_frame_fname: "frame_fname i = frame_fname j \<Longrightarrow> i = j"
  by (simp add: frame_fname_def inj_fmt05)

lemma length_str_nat: "0 < k \<Longrightarrow> n < 10 ^ k \<Longrightarrow> length (str_nat n) \<le> k"
proof (induction n arbitrary: k rule: str_nat.induct)
  case (1 n)
  show ?case
  proof (cases "n < 10")
    case True
    then show ?thesis using "1.prems" by (simp add: str_nat_small)
  next
    case False
    obtain k' where k: "k = Suc k'" using "1.prems" by (cases k) auto
    have "k' \<noteq> 0" using False "1.prems" k by (cases k') auto
    moreover have "n div 10 < 10 ^ k'" using "1.prems" k
      by (simp add: less_mult_imp_div_less mult.commute)
    ultimately have "length (str_nat (n div 10)) \<le> k'"
      using "1.IH"[OF False, of k'] by simp
    then show ?thesis using False k by (simp add: str_nat_big)
  qed
qed

lemma length_fmt05: "i < 100000 \<Longrightarrow> length (fmt05 i) = 5"
  using length_str_nat[of 5 i] by (simp add: fmt05_def)

lemma fmt05_100000: "fmt05 100000 = ''100000''"
  by (simp add: str_eval)

section \<open>Lemmas: sequencing and \<^verbatim>\<open>os.makedirs\<close>\<close>

lemma and_then_Inl [simp]: "and_then (Inl e, w) k = (Inl e, w)"
  by (simp add: and_then_def)

lemma and_then_Inr [simp]: "and_then (Inr r, w) k = k r w"
  by (simp add: and_then_def)


lemma makedirs_in_dir:
  "p \<noteq> [] \<Longrightarrow> isdir fs (butlast p) \<Longrightarrow> \<not> path_exists fs p \<Longrightarrow>
   makedirs exist_ok p fs = Inr (AList.update p Dir fs)"
  by (subst makedirs.simps) (simp add: mkdir_def isdir_def path_exists_def)

lemma makedirs_existing:
  "isdir fs p \<Longrightarrow> isdir fs (butlast p) \<Longrightarrow> makedirs True p fs = Inr fs"
  by (subst makedirs.simps) (simp add: mkdir_def isdir_def path_exists_def)


section \<open>FrameSampler\<close>

lemma ceil_div_nat:
  assumes "0 < n"
  shows "nat \<lceil>real F / real n\<rceil> = (F + n - 1) div n"
proof -
  define q where "q = (F + n - 1) div n"
  have 1: "q * n \<le> F + n - 1" by (simp add: q_def)
  have 2: "F + n - 1 < n + q * n" unfolding q_def using assms by (rule dividend_less_div_times)
  have up: "F \<le> q * n" using 2 assms by linarith
  have lo: "q * n < F + n" using 1 assms by linarith
  have a: "real F / real n \<le> real q"
    using up assms by (simp add: pos_divide_le_eq flip: of_nat_mult)
  have "real q * real n < real F + real n"
    using lo by (metis of_nat_add of_nat_less_iff of_nat_mult)
  then have "(real q - 1) * real n < real F" by (simp add: algebra_simps)
  then have b: "real q - 1 < real F / real n"
    using assms by (simp add: pos_less_divide_eq)
  have "\<lceil>real F / real n\<rceil> = int q"
    using a b by (intro ceiling_unique) simp_all
  then show ?thesis by (simp add: q_def)
qed

lemma fold_upt_Suc_shift:
  "fold f [0..<Suc k] s = fold (\<lambda>j. f (Suc j)) [0..<k] (f 0 s)"
proof -
  have "[0..<Suc k] = 0 # map Suc [0..<k]"
    by (simp add: upt_conv_Cons map_Suc_upt del: upt_Suc)
  then show ?thesis by (simp add: fold_map comp_def del: upt_Suc)
qed

lemma extract_video_loop_fold:
  "0 < n \<Longrightarrow>
   extract_video_loop v output (int n) idx cnt fs =
     Inr (fold (\<lambda>j. imwrite (output @ [frame_fname (idx + j)]) (v ! (gap n cnt + j * n)))
            [0..<(length v + n - 1 - gap n cnt) div n] fs)"
proof (induction v arbitrary: idx cnt fs)
  case Nil
  have "gap n cnt < n" using Nil by (simp add: gap_def)
  then have "(n - 1 - gap n cnt) div n = 0" by simp
  then show ?case by simp
next
  case (Cons x v)
  have gl: "gap n cnt < n" using Cons.prems by (simp add: gap_def)
  show ?case
  proof (cases "cnt mod n = 0")
    case True
    then have g0: "gap n cnt = 0" by (simp add: gap_def)
    have g1: "gap n (Suc cnt) = n - 1"
      using True Cons.prems by (cases "n = 1") (auto simp: gap_def mod_Suc)
    have cond: "int cnt mod int n = 0" using True by (metis of_nat_mod of_nat_0)
    have len: "(length (x # v) + n - 1 - 0) div n = Suc ((length v + n - 1 - (n - 1)) div n)"
      using Cons.prems by (simp add: div_add_self2)
    have nth: "\<And>j. (x # v) ! (0 + Suc j * n) = v ! (n - 1 + j * n)"
      using Cons.prems by (cases n) (auto simp: add.commute add.left_commute)
    show ?thesis
      using Cons.prems cond
      apply (simp only: extract_video_loop.simps g0 len)
      apply (simp only: fold_upt_Suc_shift nth)
      apply (simp add: Cons.IH g1)
      done
  next
    case False
    then have gpos: "0 < gap n cnt" using Cons.prems by (simp add: gap_def)
    have g1: "gap n (Suc cnt) = gap n cnt - 1"
      using False Cons.prems by (auto simp: gap_def mod_Suc)
    have cond: "int cnt mod int n \<noteq> 0" using False by (metis of_nat_mod of_nat_eq_0_iff)
    have len: "(length (x # v) + n - 1 - gap n cnt) = (length v + n - 1 - (gap n cnt - 1))"
      using gpos gl by simp
    have nth: "\<And>j. (x # v) ! (gap n cnt + j * n) = v ! (gap n cnt - 1 + j * n)"
      using gpos by (cases "gap n cnt") auto
    show ?thesis
      using Cons.prems cond
      apply (simp only: extract_video_loop.simps len nth)
      apply (simp add: Cons.IH g1)
      done
  qed
qed

lemma extract_video_fold:
  "0 < n \<Longrightarrow>
   extract_video v output (int n) fs =
     Inr (fold (\<lambda>j. imwrite (output @ [frame_fname j]) (v ! (j * n)))
            [0..<(length v + n - 1) div n] fs)"
  using extract_video_loop_fold[of n v "output" 0 0 fs]
  by (simp add: extract_video_def gap_def)

lemma extract_video_lookup:
  assumes "0 < n" and "m = (length v + n - 1) div n"
    and "\<forall>j<m. writable fs (output @ [frame_fname j])"
  shows "\<exists>fs'. extract_video v output (int n) fs = Inr fs' \<and>
     (\<forall>j<m. lookup fs' (output @ [frame_fname j]) = Some (File True (v ! (j * n)))) \<and>
     (\<forall>q. q \<notin> (\<lambda>j. output @ [frame_fname j]) ` {..<m} \<longrightarrow> lookup fs' q = lookup fs q)"
proof -
  let ?pth = "\<lambda>j. output @ [frame_fname j]"
  let ?fs' = "fold (\<lambda>j. imwrite (?pth j) (v ! (j * n))) [0..<m] fs"
  have e: "extract_video v output (int n) fs = Inr ?fs'"
    using assms(1,2) by (simp add: extract_video_fold)
  have inj: "inj_on ?pth (set [0..<m])"
    by (auto simp: inj_on_def dest: inj_frame_fname)
  have a: "\<forall>j<m. lookup ?fs' (?pth j) = Some (File True (v ! (j * n)))"
  proof (intro allI impI)
    fix j assume "j < m"
    then show "lookup ?fs' (?pth j) = Some (File True (v ! (j * n)))"
      using fold_imwrite_same[of j "[0..<m]" ?pth fs "\<lambda>j. v ! (j * n)"] inj assms(3)
      by simp
  qed
  have b: "\<forall>q. q \<notin> ?pth ` {..<m} \<longrightarrow> lookup ?fs' q = lookup fs q"
  proof (intro allI impI)
    fix q assume "q \<notin> ?pth ` {..<m}"
    then have "q \<notin> ?pth ` set [0..<m]" by (simp add: lessThan_atLeast0)
    then show "lookup ?fs' q = lookup fs q" by (rule fold_imwrite_other)
  qed
  show ?thesis using e a b by blast
qed


text \<open>
  Claim C4, as amended.  For a video of \<open>F\<close> frames and a stride \<open>n \<ge> 1\<close>, with
  \<open>m = \<lceil>F / n\<rceil>\<close> and an output directory in which the \<open>m\<close> frame files can be written,
  \<^verbatim>\<open>extract_video\<close> returns, the file numbered \<open>j < m\<close> holds frame \<open>j * n\<close>, and no other path
  of the file system changes.  The names are distinct; each is the decimal number \<open>j\<close>
  with zeros in front up to a width of five, followed by \<^verbatim>\<open>.jpg\<close>: exactly five digits
  below 100000, and more from there on.
\<close>

theorem extract_video_samples_every_nth_frame:
  assumes "1 \<le> n"
    and "m = nat \<lceil>real (length v) / real_of_int n\<rceil>"
    and "\<forall>j<m. writable fs (output @ [frame_fname j])"
  shows "\<exists>fs'. extract_video v output n fs = Inr fs' \<and>
     (\<forall>j<m. lookup fs' (output @ [frame_fname j]) = Some (File True (v ! (j * nat n)))) \<and>
     (\<forall>q. q \<notin> (\<lambda>j. output @ [frame_fname j]) ` {..<m} \<longrightarrow> lookup fs' q = lookup fs q) \<and>
     (\<forall>i j. frame_fname i = frame_fname j \<longrightarrow> i = j) \<and>
     (\<forall>j. frame_fname j = replicate (5 - length (str_nat j)) (CHR ''0'') @ str_nat j @ ''.jpg''
          \<and> parse_nat (str_nat j) = j) \<and>
     (\<forall>j<100000. length (fmt05 j) = 5)"
proof -
  define k where "k = nat n"
  have k: "n = int k" "0 < k" using assms(1) by (simp_all add: k_def)
  have m: "m = (length v + k - 1) div k"
    using assms(2) k by (simp add: ceil_div_nat)
  from extract_video_lookup[OF k(2) m, of fs "output"] assms(3) k
  obtain fs' where "extract_video v output n fs = Inr fs'"
    "\<forall>j<m. lookup fs' (output @ [frame_fname j]) = Some (File True (v ! (j * nat n)))"
    "\<forall>q. q \<notin> (\<lambda>j. output @ [frame_fname j]) ` {..<m} \<longrightarrow> lookup fs' q = lookup fs q"
    by auto
  moreover have "\<forall>i j. frame_fname i = frame_fname j \<longrightarrow> i = j"
    by (auto dest: inj_frame_fname)
  moreover have "\<forall>j. frame_fname j = replicate (5 - length (str_nat j)) (CHR ''0'') @ str_nat j @ ''.jpg''
          \<and> parse_nat (str_nat j) = j"
    by (simp add: frame_fname_def fmt05_def parse_nat_str_nat)
  moreover have "\<forall>j<100000. length (fmt05 j) = 5"
    by (simp add: length_fmt05)
  ultimately show ?thesis by blast
qed

text \<open>Five frames at stride two: frames 0, 2 and 4 in three files, and no fourth file.\<close>

theorem extract_video_samples_witness:
  "\<exists>fs'. extract_video [10, 20, 30, 40, 50 :: nat] [''out''] 2 [([''out''], Dir)] = Inr fs' \<and>
     lookup fs' [''out'', ''00000.jpg''] = Some (File True 10) \<and>
     lookup fs' [''out'', ''00001.jpg''] = Some (File True 30) \<and>
     lookup fs' [''out'', ''00002.jpg''] = Some (File True 50) \<and>
     lookup fs' [''out'', ''00003.jpg''] = None"
proof -
  let ?fs = "[([''out''], Dir)] :: nat filesys"
  let ?v = "[10, 20, 30, 40, 50 :: nat]"
  have n: "(1::int) \<le> 2" by simp
  have m: "(3::nat) = nat \<lceil>real (length ?v) / real_of_int 2\<rceil>" by simp
  have w: "\<forall>j<3. writable ?fs ([''out''] @ [frame_fname j])"
    by (simp add: writable_def isdir_def lookup_def)
  from extract_video_samples_every_nth_frame[OF n m w]
  obtain fs' where e: "extract_video ?v [''out''] 2 ?fs = Inr fs'"
    and a: "\<forall>j<3. lookup fs' ([''out''] @ [frame_fname j]) = Some (File True (?v ! (j * nat 2)))"
    and b: "\<forall>q. q \<notin> (\<lambda>j. [''out''] @ [frame_fname j]) ` {..<3} \<longrightarrow> lookup fs' q = lookup ?fs q"
    and c: "\<forall>i j. frame_fname i = frame_fname j \<longrightarrow> i = j"
    by blast
  have n0: "frame_fname 0 = ''00000.jpg''" by (simp add: str_eval)
  have n1: "frame_fname 1 = ''00001.jpg''" by (simp add: str_eval)
  have n2: "frame_fname 2 = ''00002.jpg''" by (simp add: str_eval)
  have n3: "frame_fname 3 = ''00003.jpg''" by (simp add: str_eval)
  have "[''out'', ''00003.jpg''] \<notin> (\<lambda>j. [''out''] @ [frame_fname j]) ` {..<3}"
  proof
    assume "[''out'', ''00003.jpg''] \<in> (\<lambda>j. [''out''] @ [frame_fname j]) ` {..<3}"
    then obtain j where j: "j < 3" "[''out'', ''00003.jpg''] = [''out''] @ [frame_fname j]"
      by blast
    then have "frame_fname j = frame_fname 3" by (simp only: n3) simp
    then have "j = 3" using c by blast
    then show False using j(1) by simp
  qed
  then have "lookup fs' [''out'', ''00003.jpg''] = lookup ?fs [''out'', ''00003.jpg'']"
    using b by blast
  then have "lookup fs' [''out'', ''00003.jpg''] = None"
    by (simp add: lookup_def)
  moreover have "lookup fs' [''out'', ''00000.jpg''] = Some (File True 10)"
    using a[rule_format, of 0] n0 by simp
  moreover have "lookup fs' [''out'', ''00001.jpg''] = Some (File True 30)"
    using a[rule_format, of 1] n1 by simp
  moreover have "lookup fs' [''out'', ''00002.jpg''] = Some (File True 50)"
    using a[rule_format, of 2] n2 by simp
  ultimately show ?thesis using e by blast
qed

text \<open>
  Claim C4 as stated asks for five-digit names throughout.  A video of 100001 frames at
  stride one has its last frame written to \<^verbatim>\<open>100000.jpg\<close>, a name of six digits.
\<close>

theorem extract_video_six_digit_name:
  "(case extract_video (replicate 100001 (0::nat)) [''out''] 1 [([''out''], Dir)] of
      Inl e \<Rightarrow> None
    | Inr fs' \<Rightarrow> lookup fs' [''out'', ''100000.jpg'']) = Some (File True 0)"
proof -
  let ?fs = "[([''out''], Dir)] :: nat filesys"
  let ?v = "replicate 100001 (0::nat)"
  have m: "(100001::nat) = (length ?v + 1 - 1) div 1" by simp
  have w: "\<forall>j<100001. writable ?fs ([''out''] @ [frame_fname j])"
    by (simp add: writable_def isdir_def lookup_def)
  from extract_video_lookup[OF zero_less_one m w]
  obtain fs' where e: "extract_video ?v [''out''] (int 1) ?fs = Inr fs'"
    and a: "\<forall>j<100001. lookup fs' ([''out''] @ [frame_fname j]) = Some (File True (?v ! (j * 1)))"
    by blast
  have nm: "frame_fname 100000 = ''100000.jpg''" by (simp add: str_eval)
  have "lookup fs' [''out'', ''100000.jpg''] = Some (File True 0)"
    using a[rule_format, of 100000] nm by simp
  then show ?thesis using e by simp
qed

section \<open>WorkspaceConfig\<close>









section \<open>MediaClassifier\<close>

text \<open>
  Claim C9, as amended.  For a file the process can read, \<^verbatim>\<open>istype\<close> returns a truth
  value: true when the content has a known signature whose MIME type starts with the
  tag, false otherwise, so a readable file of unknown content is neither an image nor a
  video.  For a candidate that cannot be read (no permission, a directory, or a
  missing file) the error of opening it leaves \<^verbatim>\<open>istype\<close>, which has no handler.
\<close>

theorem istype_probe:
  "(lookup fs (source @ f) = Some (File True c) \<longrightarrow>
      istype sniff fs source f t = Inr (case sniff c of None \<Rightarrow> False | Some mime \<Rightarrow> prefix t mime))
   \<and> (lookup fs (source @ f) = Some (File False c) \<longrightarrow>
      istype sniff fs source f t = Inl PermissionError)
   \<and> (lookup fs (source @ f) = Some Dir \<longrightarrow> istype sniff fs source f t = Inl IsADirectoryError)
   \<and> (lookup fs (source @ f) = None \<longrightarrow> istype sniff fs source f t = Inl FileNotFoundError)"
  by (auto simp: istype_def guess_def split: option.splits)

text \<open>A text file is neither; a file with the JPEG signature is an image whatever its name.\<close>

theorem istype_probe_witness:
  "istype by_magic [([''s''], Dir), ([''s'', ''notes.txt''], File True ''hello'')]
     [''s''] [''notes.txt''] ''image'' = Inr False
   \<and> istype by_magic [([''s''], Dir), ([''s'', ''notes.txt''], File True ''hello'')]
     [''s''] [''notes.txt''] ''video'' = Inr False
   \<and> istype by_magic [([''s''], Dir), ([''s'', ''a.txt''], File True ''JPG1'')]
     [''s''] [''a.txt''] ''image'' = Inr True"
proof -
  let ?fs = "[([''s''], Dir), ([''s'', ''notes.txt''], File True ''hello'')]"
  let ?fs2 = "[([''s''], Dir), ([''s'', ''a.txt''], File True ''JPG1'')]"
  have a: "lookup ?fs ([''s''] @ [''notes.txt'']) = Some (File True ''hello'')"
    by (simp add: lookup_def)
  have b: "lookup ?fs2 ([''s''] @ [''a.txt'']) = Some (File True ''JPG1'')"
    by (simp add: lookup_def)
  show ?thesis
    using istype_probe[of ?fs "[''s'']" "[''notes.txt'']" "''hello''" by_magic "''image''"]
          istype_probe[of ?fs "[''s'']" "[''notes.txt'']" "''hello''" by_magic "''video''"]
          istype_probe[of ?fs2 "[''s'']" "[''a.txt'']" "''JPG1''" by_magic "''image''"] a b
    by (simp add: by_magic_def)
qed

text \<open>
  Claim C9 as stated has an unreadable candidate classified as neither.  A file the
  process may not open makes \<^verbatim>\<open>istype\<close> raise.
\<close>

theorem istype_unreadable_raises:
  "istype by_magic [([''s''], Dir), ([''s'', ''a.jpg''], File False ''JPG1'')]
     [''s''] [''a.jpg''] ''image'' = Inl PermissionError"
  by (simp add: istype_def guess_def lookup_def)

section \<open>StagingPlanner\<close>

lemma click_prompt_frame:
  "click_prompt conv w = (r, w1) \<Longrightarrow>
   files w1 = files w \<and> curdir w1 = curdir w \<and> console w1 = console w"
  by (auto simp: click_prompt_def split: prod.splits)

lemma select_videos_inv:
  "select_videos sniff source ext_vid sel_videos i w = (Inr sel, w') \<Longrightarrow>
   int (length sel_videos) = i \<Longrightarrow> i \<le> ext_vid \<Longrightarrow>
   list_all (\<lambda>v. istype sniff (files w) source v ''video'' = Inr True) sel_videos \<Longrightarrow>
   int (length sel) = ext_vid
   \<and> list_all (\<lambda>v. istype sniff (files w) source v ''video'' = Inr True) sel
   \<and> files w' = files w \<and> curdir w' = curdir w"
proof (induction sniff source ext_vid sel_videos i w rule: select_videos.induct)
  case (1 sniff source ext_vid sel_videos i w)
  show ?case
  proof (cases "i < ext_vid")
    case False
    then show ?thesis using "1.prems" by (simp add: select_videos.simps)
  next
    case True
    obtain r w1 where p: "click_prompt (conv_file (files w) (curdir w)) w = (r, w1)"
      by (cases "click_prompt (conv_file (files w) (curdir w)) w") auto
    have fr: "files w1 = files w" "curdir w1 = curdir w"
      using click_prompt_frame[OF p] by simp_all
    from "1.prems"(1) True p obtain vid where r: "r = Inr vid"
      by (subst (asm) select_videos.simps) (auto split: sum.splits)
    from "1.prems"(1) True p r obtain b where b: "istype sniff (files w1) source vid ''video'' = Inr b"
      by (subst (asm) select_videos.simps) (auto split: sum.splits)
    show ?thesis
    proof (cases b)
      case True
      have call: "select_videos sniff source ext_vid (sel_videos @ [vid]) (i + 1) w1 = (Inr sel, w')"
        using "1.prems"(1) \<open>i < ext_vid\<close> p r b True
        by (subst (asm) select_videos.simps) simp
      have bT: "istype sniff (files w1) source vid ''video'' = Inr True" using b True by simp
      show ?thesis
        using "1.IH"(1)[OF \<open>i < ext_vid\<close> p[symmetric] r bT] call "1.prems" \<open>i < ext_vid\<close> bT fr
        by simp
    next
      case False
      have call: "select_videos sniff source ext_vid sel_videos i (echo (not_a_video_msg vid) w1) = (Inr sel, w')"
        using "1.prems"(1) \<open>i < ext_vid\<close> p r b False
        by (subst (asm) select_videos.simps) simp
      have bF: "istype sniff (files w1) source vid ''video'' = Inr False" using b False by simp
      show ?thesis
        using "1.IH"(2)[OF \<open>i < ext_vid\<close> p[symmetric] r bF] call "1.prems" fr
        by (simp add: echo_def)
    qed
  qed
qed

text \<open>
  Claim C6.  In the selection loop a candidate that the classifier does not accept as a
  video only adds the message: the loop goes on from the same count and the same
  selection, with the next answer.  When the loop returns, for a requested count
  \<open>ext_vid \<ge> 0\<close>, it has collected exactly \<open>ext_vid\<close> candidates, each accepted by
  the classifier as a video.
\<close>

theorem select_videos_reprompts_until_k_videos:
  "(i < ext_vid \<and> click_prompt (conv_file (files w) (curdir w)) w = (Inr vid, w1)
      \<and> istype sniff (files w1) source vid ''video'' = Inr False \<longrightarrow>
      select_videos sniff source ext_vid sel_videos i w =
        select_videos sniff source ext_vid sel_videos i (echo (not_a_video_msg vid) w1))
   \<and> (0 \<le> ext_vid \<and> select_videos sniff source ext_vid [] 0 w = (Inr sel, w') \<longrightarrow>
      int (length sel) = ext_vid
      \<and> list_all (\<lambda>v. istype sniff (files w) source v ''video'' = Inr True) sel)"
proof (intro conjI impI)
  assume "i < ext_vid \<and> click_prompt (conv_file (files w) (curdir w)) w = (Inr vid, w1)
      \<and> istype sniff (files w1) source vid ''video'' = Inr False"
  then show "select_videos sniff source ext_vid sel_videos i w =
        select_videos sniff source ext_vid sel_videos i (echo (not_a_video_msg vid) w1)"
    by (subst select_videos.simps) simp
next
  assume a: "0 \<le> ext_vid \<and> select_videos sniff source ext_vid [] 0 w = (Inr sel, w')"
  then have "int (length sel) = ext_vid
      \<and> list_all (\<lambda>v. istype sniff (files w) source v ''video'' = Inr True) sel
      \<and> files w' = files w \<and> curdir w' = curdir w"
    by (intro select_videos_inv[of sniff source ext_vid "[]" 0 w sel w']) simp_all
  then show "int (length sel) = ext_vid" 
    and "list_all (\<lambda>v. istype sniff (files w) source v ''video'' = Inr True) sel"
    by simp_all
qed

lemmas world_eval = session_def click_prompt_def echo_def and_then_def on_files_def chdir_def

text \<open>One video wanted; the caller names a text file first, then the video.\<close>

theorem select_videos_witness:
  "select_videos by_magic [''s''] 1 [] 0
     ((session demo_fs [APath [''notes.txt''], APath [''clip.mp4'']])\<lparr>curdir := [''s'']\<rparr>) =
   select_videos by_magic [''s''] 1 [] 0
     (echo (not_a_video_msg [''notes.txt''])
        ((session demo_fs [APath [''clip.mp4'']])\<lparr>curdir := [''s'']\<rparr>))
   \<and> select_videos by_magic [''s''] 1 [] 0
     ((session demo_fs [APath [''notes.txt''], APath [''clip.mp4'']])\<lparr>curdir := [''s'']\<rparr>) =
     (Inr [[''clip.mp4'']],
      (session demo_fs [])\<lparr>curdir := [''s''],
         console := [''The file you entered (notes.txt) is not a video!'']\<rparr>)
   \<and> int (length [[''clip.mp4'']]) = 1
   \<and> list_all (\<lambda>v. istype by_magic demo_fs [''s''] v ''video'' = Inr True) [[''clip.mp4'']]"
proof -
  let ?w = "(session demo_fs [APath [''notes.txt''], APath [''clip.mp4'']])\<lparr>curdir := [''s'']\<rparr>"
  let ?w1 = "(session demo_fs [APath [''clip.mp4'']])\<lparr>curdir := [''s'']\<rparr>"
  let ?w' = "(session demo_fs [])\<lparr>curdir := [''s''],
         console := [''The file you entered (notes.txt) is not a video!'']\<rparr>"
  have p: "click_prompt (conv_file (files ?w) (curdir ?w)) ?w = (Inr [''notes.txt''], ?w1)"
    by (simp add: world_eval demo_fs_def lookup_def)
  have n: "istype by_magic (files ?w1) [''s''] [''notes.txt''] ''video'' = Inr False"
    by (simp add: session_def demo_fs_def istype_def guess_def lookup_def by_magic_def)
  have run: "select_videos by_magic [''s''] 1 [] 0 ?w = (Inr [[''clip.mp4'']], ?w')"
    by (simp add: select_videos.simps world_eval demo_fs_def lookup_def istype_def guess_def
        by_magic_def not_a_video_msg_def)
  have f: "files ?w = demo_fs" by (simp add: session_def)
  from select_videos_reprompts_until_k_videos[of 0 1 ?w "[''notes.txt'']" ?w1 by_magic "[''s'']" "[]"
      "[[''clip.mp4'']]" ?w'] p n run f
  show ?thesis by simp
qed

section \<open>SetExtractor\<close>

lemma on_files_frame:
  "on_files f w = (r, w') \<Longrightarrow>
   chosen w' = chosen w \<and> answers w' = answers w \<and> curdir w' = curdir w \<and> console w' = console w"
  by (auto simp: on_files_def split: sum.splits)

lemma for_each_on_files_frame:
  "for_each (\<lambda>x. on_files (f x)) xs w = (r, w') \<Longrightarrow>
   chosen w' = chosen w \<and> answers w' = answers w \<and> curdir w' = curdir w \<and> console w' = console w"
proof (induction xs arbitrary: w)
  case Nil
  then show ?case by simp
next
  case (Cons x xs)
  show ?case
  proof (cases "on_files (f x) w")
    case (Pair r1 w1)
    then show ?thesis using Cons on_files_frame[OF Pair]
      by (cases r1) auto
  qed
qed

lemma extract_set_frame:
  "extract_set decode working i choice w = (r, w') \<Longrightarrow>
   chosen w' = chosen w \<and> answers w' = answers w"
proof -
  assume a: "extract_set decode working i choice w = (r, w')"
  let ?m = "on_files (makedirs True (working @ [''output'', ''set'' @ str_nat i])) w"
  obtain r1 w1 where m: "?m = (r1, w1)" by (cases ?m) auto
  have f1: "chosen w1 = chosen w \<and> answers w1 = answers w"
    using on_files_frame[OF m] by simp
  show ?thesis
  proof (cases r1)
    case (Inl e)
    then show ?thesis using a m f1 by (simp add: extract_set_def)
  next
    case (Inr u)
    show ?thesis
    proof (cases "choice = ''images''")
      case True
      then show ?thesis
        using a m Inr f1
        by (auto simp: extract_set_def and_then_def split: sum.splits
            dest!: for_each_on_files_frame)
    next
      case False
      then show ?thesis
        using a m Inr f1
        by (auto simp: extract_set_def and_then_def split: sum.splits list.splits if_splits
            dest!: on_files_frame)
    qed
  qed
qed

lemma prompt_choice: "prompt (conv_choice A) as = (Inr c, rest) \<Longrightarrow> c \<in> A"
proof (induction as)
  case Nil
  then show ?case by simp
next
  case (Cons a as)
  then show ?case by (cases a) (auto split: if_splits)
qed

lemma click_prompt_choice:
  "click_prompt (conv_choice A) w = (Inr c, w1) \<Longrightarrow> c \<in> A \<and> chosen w1 = chosen w \<and> files w1 = files w"
  by (auto simp: click_prompt_def split: prod.splits dest: prompt_choice)

lemma click_prompt_chosen:
  "click_prompt conv w = (r, w1) \<Longrightarrow> chosen w1 = chosen w"
  by (auto simp: click_prompt_def split: prod.splits)

lemma extract_loop_chosen:
  "extract_loop decode working idxs available w = (r, w') \<Longrightarrow>
   \<exists>new. chosen w' = chosen w @ new \<and> map fst new = take (length new) idxs
     \<and> distinct (map snd new) \<and> set (map snd new) \<subseteq> available"
proof (induction idxs arbitrary: available w)
  case Nil
  then show ?case by simp
next
  case (Cons i rest)
  obtain r1 w1 where p: "click_prompt (conv_choice available) w = (r1, w1)"
    by (cases "click_prompt (conv_choice available) w") auto
  show ?case
  proof (cases r1)
    case (Inl e)
    then have "chosen w' = chosen w" using Cons.prems p click_prompt_chosen[OF p] by simp
    then show ?thesis by simp
  next
    case (Inr choice)
    have c: "choice \<in> available" "chosen w1 = chosen w"
      using click_prompt_choice[of available w choice w1] p Inr by simp_all
    let ?w1 = "w1\<lparr>chosen := chosen w1 @ [(i, choice)]\<rparr>"
    obtain r2 w2 where e: "extract_set decode working i choice ?w1 = (r2, w2)"
      by (cases "extract_set decode working i choice ?w1") auto
    have ch2: "chosen w2 = chosen w @ [(i, choice)]"
      using extract_set_frame[OF e] c by simp
    show ?thesis
    proof (cases r2)
      case (Inl e2)
      then have "w' = w2" using Cons.prems p Inr e by simp
      then show ?thesis using ch2 c
        by (intro exI[of _ "[(i, choice)]"]) simp
    next
      case (Inr u)
      then have "extract_loop decode working rest (available - {choice}) w2 = (r, w')"
        using Cons.prems p \<open>r1 = Inr choice\<close> e by simp
      from Cons.IH[OF this] obtain new where new: "chosen w' = chosen w2 @ new"
        "map fst new = take (length new) rest" "distinct (map snd new)"
        "set (map snd new) \<subseteq> available - {choice}" by blast
      show ?thesis using new ch2 c
        by (intro exI[of _ "(i, choice) # new"]) auto
    qed
  qed
qed

lemma extract_cmd_loop:
  "extract_cmd decode w0 = (r, w') \<Longrightarrow>
   chosen w' = chosen w0 \<or>
   (\<exists>working n A w. ctx_working w0 = Some working \<and> chosen w = chosen w0 \<and> files w = files w0
      \<and> listdir (files w0) (working @ [''input'']) = Inr A
      \<and> extract_loop decode working [0..<n] (set A) w = (r, w'))"
proof -
  assume a: "extract_cmd decode w0 = (r, w')"
  show ?thesis
  proof (cases "ctx_working w0")
    case None
    then show ?thesis using a by (simp add: extract_cmd_def)
  next
    case (Some working)
    show ?thesis
    proof (cases "listdir (files w0) working")
      case (Inl e)
      then show ?thesis using a Some by (simp add: extract_cmd_def and_then_def)
    next
      case (Inr l)
      show ?thesis
      proof (cases "''input'' \<notin> set l \<and> ''output'' \<notin> set l")
        case True
        then show ?thesis using a Some Inr by (auto simp: extract_cmd_def and_then_def)
      next
        case False
        show ?thesis
        proof (cases "listdir (files w0) (working @ [''input''])")
          case (Inl e)
          then show ?thesis using a Some Inr False
            by (auto simp: extract_cmd_def and_then_def)
        next
          case li: (Inr A)
          let ?max = "length (filter (prefix ''video'') A) + (if ''images'' \<in> set A then 1 else 0)"
          show ?thesis
          proof (cases "?max = 0")
            case True
            then show ?thesis using a Some Inr False li
              by (auto simp: extract_cmd_def and_then_def Let_def split: if_splits)
          next
            case nz: False
            obtain r1 w1 where p: "click_prompt (conv_range 0 (int ?max)) w0 = (r1, w1)"
              by (cases "click_prompt (conv_range 0 (int ?max)) w0") auto
            have fr: "chosen w1 = chosen w0" "files w1 = files w0"
              using p by (auto simp: click_prompt_def split: prod.splits)
            have run: "extract_cmd decode w0 =
                and_then (r1, w1) (\<lambda>set_count w.
                  and_then (listdir (files w) (working @ [''input'']), w) (\<lambda>l5 w.
                    extract_loop decode working [0..<nat set_count] (set l5) w))"
              using Some Inr False li nz p
              by (auto simp: extract_cmd_def and_then_def Let_def split: if_splits)
            show ?thesis
            proof (cases r1)
              case (Inl e)
              then show ?thesis using a run fr by simp
            next
              case (Inr set_count)
              then have "extract_loop decode working [0..<nat set_count] (set A) w1 = (r, w')"
                using a run li fr by (simp add: and_then_def)
              then show ?thesis using Some fr li by blast
            qed
          qed
        qed
      qed
    qed
  qed
qed

lemma children_exist: "c \<in> set (children fs p) \<Longrightarrow> path_exists fs (p @ [c])"
proof -
  assume "c \<in> set (children fs p)"
  then obtain e where e: "e \<in> set fs" "fst e \<noteq> []" "butlast (fst e) = p" "last (fst e) = c"
    by (auto simp: children_def)
  then have k: "fst e = p @ [c]" by (metis append_butlast_last_id)
  have "map_of fs (fst e) \<noteq> None"
    using e(1) by (metis map_of_eq_None_iff image_eqI)
  then show ?thesis using k by (simp add: path_exists_def lookup_def)
qed

text \<open>
  Claim C8.  In an iteration the choice is one of the available names, and the loop
  goes on with the available names less the choice, a proper subset.  In the record
  \<open>chosen\<close> of a run that started with an empty record, the set indices are
  \<open>0, 1, 2, \<dots>\<close> in this order, no unit occurs twice, and every unit is an entry of
  \<^verbatim>\<open>working/input\<close>.
\<close>

theorem extract_never_reuses_a_unit:
  "(click_prompt (conv_choice available) w = (Inr choice, w1) \<longrightarrow>
      choice \<in> available \<and> available - {choice} \<subset> available
      \<and> (\<forall>w2. extract_set decode working i choice (w1\<lparr>chosen := chosen w1 @ [(i, choice)]\<rparr>)
                 = (Inr (), w2) \<longrightarrow>
           extract_loop decode working (i # rest) available w =
             extract_loop decode working rest (available - {choice}) w2))
   \<and> (chosen w0 = [] \<and> extract_cmd decode w0 = (r, w') \<longrightarrow>
        map fst (chosen w') = [0..<length (chosen w')] \<and> distinct (map snd (chosen w'))
        \<and> (\<forall>working. ctx_working w0 = Some working \<longrightarrow>
              list_all (\<lambda>c. path_exists (files w0) (working @ [''input'', c])) (map snd (chosen w'))))"
proof (intro conjI impI allI)
  assume p: "click_prompt (conv_choice available) w = (Inr choice, w1)"
  then show "choice \<in> available" by (simp add: click_prompt_choice)
  then show "available - {choice} \<subset> available" by auto
  fix w2
  assume "extract_set decode working i choice (w1\<lparr>chosen := chosen w1 @ [(i, choice)]\<rparr>) = (Inr (), w2)"
  then show "extract_loop decode working (i # rest) available w =
             extract_loop decode working rest (available - {choice}) w2"
    using p by simp
next
  assume a: "chosen w0 = [] \<and> extract_cmd decode w0 = (r, w')"
  have "\<exists>n. map fst (chosen w') = take (length (chosen w')) [0..<n]
      \<and> distinct (map snd (chosen w'))
      \<and> (\<forall>working. ctx_working w0 = Some working \<longrightarrow>
            set (map snd (chosen w')) \<subseteq> set (children (files w0) (working @ [''input''])))"
  proof -
    from extract_cmd_loop[of decode w0 r w'] a
    consider "chosen w' = []"
      | working n A w where "ctx_working w0 = Some working" "chosen w = []"
          "listdir (files w0) (working @ [''input'']) = Inr A"
          "extract_loop decode working [0..<n] (set A) w = (r, w')"
      by auto
    then show ?thesis
    proof cases
      case 1
      then show ?thesis by simp
    next
      case 2
      from extract_loop_chosen[OF 2(4)] 2(2) have
        "map fst (chosen w') = take (length (chosen w')) [0..<n]"
        "distinct (map snd (chosen w'))" "set (map snd (chosen w')) \<subseteq> set A"
        by auto
      moreover have "A = children (files w0) (working @ [''input''])"
        using 2(3) by (auto simp: listdir_def split: option.splits node.splits)
      ultimately show ?thesis using 2(1) by auto
    qed
  qed
  then obtain n where n: "map fst (chosen w') = take (length (chosen w')) [0..<n]"
    and d: "distinct (map snd (chosen w'))"
    and s: "\<forall>working. ctx_working w0 = Some working \<longrightarrow>
            set (map snd (chosen w')) \<subseteq> set (children (files w0) (working @ [''input'']))"
    by blast
  have "length (map fst (chosen w')) = length (take (length (chosen w')) [0..<n])"
    using n by simp
  then have "length (chosen w') \<le> n" by simp
  then show "map fst (chosen w') = [0..<length (chosen w')]"
    using n by (simp add: take_upt)
  show "distinct (map snd (chosen w'))" by (rule d)
  fix working assume "ctx_working w0 = Some working"
  then have "set (map snd (chosen w')) \<subseteq> set (children (files w0) (working @ [''input'']))"
    using s by simp
  then show "list_all (\<lambda>c. path_exists (files w0) (working @ [''input'', c])) (map snd (chosen w'))"
    using children_exist[of _ "files w0" "working @ [''input'']"]
    by (auto simp: list_all_iff)
qed

lemmas run_eval = session_def click_prompt_def on_files_def listdir_def children_def lookup_def
  isdir_def path_exists_def extract_set_def shutil_copy_def basename_def extract_video_def
  video_capture_def demo_decode_def imwrite_def writable_def str_eval makedirs_in_dir Let_def
  upt_conv_Cons

lemma demo_run:
  "extract_cmd demo_decode
     ((session demo_staged [AInt 2, AText ''images'', AText ''images'', AText ''video0''])
        \<lparr>ctx_working := Some [''w'']\<rparr>) =
   (Inr (),
    (session (demo_staged @
        [([''w'', ''output'', ''set0''], Dir),
         ([''w'', ''output'', ''set0'', ''a.jpg''], File True ''JPG a''),
         ([''w'', ''output'', ''set1''], Dir),
         ([''w'', ''output'', ''set1'', ''00000.jpg''], File True ''c'')]) [])
      \<lparr>ctx_working := Some [''w''], chosen := [(0, ''images''), (1, ''video0'')]\<rparr>)"
  by (simp add: extract_cmd_def demo_staged_def run_eval)

text \<open>
  Two sets wanted; the caller answers \<^verbatim>\<open>images\<close>, \<^verbatim>\<open>images\<close> again and \<^verbatim>\<open>video0\<close>.
  The second answer is not among the choices any more and is passed over.
\<close>

theorem extract_never_reuses_witness:
  "click_prompt (conv_choice {''images'', ''video0''})
      (session demo_staged [AText ''images'', AText ''images'', AText ''video0'']) =
     (Inr ''images'', session demo_staged [AText ''images'', AText ''video0''])
   \<and> ''images'' \<in> {''images'', ''video0''}
   \<and> {''images'', ''video0''} - {''images''} \<subset> {''images'', ''video0''}
   \<and> click_prompt (conv_choice ({''images'', ''video0''} - {''images''}))
      (session demo_staged [AText ''images'', AText ''video0'']) =
     (Inr ''video0'', session demo_staged [])
   \<and> chosen (snd (extract_cmd demo_decode
        ((session demo_staged [AInt 2, AText ''images'', AText ''images'', AText ''video0''])
           \<lparr>ctx_working := Some [''w'']\<rparr>))) = [(0, ''images''), (1, ''video0'')]
   \<and> map fst (chosen (snd (extract_cmd demo_decode
        ((session demo_staged [AInt 2, AText ''images'', AText ''images'', AText ''video0''])
           \<lparr>ctx_working := Some [''w'']\<rparr>)))) = [0..<2]
   \<and> distinct (map snd (chosen (snd (extract_cmd demo_decode
        ((session demo_staged [AInt 2, AText ''images'', AText ''images'', AText ''video0''])
           \<lparr>ctx_working := Some [''w'']\<rparr>)))))"
proof -
  let ?first = "session demo_staged [AText ''images'', AText ''images'', AText ''video0'']"
  let ?next = "session demo_staged [AText ''images'', AText ''video0'']"
  let ?start = "(session demo_staged [AInt 2, AText ''images'', AText ''images'', AText ''video0''])
           \<lparr>ctx_working := Some [''w'']\<rparr>"
  let ?A = "{''images'', ''video0''}"
  have p: "click_prompt (conv_choice ?A) ?first = (Inr ''images'', ?next)"
    by (simp add: click_prompt_def session_def)
  have p2: "click_prompt (conv_choice (?A - {''images''})) ?next = (Inr ''video0'', session demo_staged [])"
    by (simp add: click_prompt_def session_def)
  have c0: "chosen ?start = []" by (simp add: session_def)
  have r: "extract_cmd demo_decode ?start =
      (fst (extract_cmd demo_decode ?start), snd (extract_cmd demo_decode ?start))" by simp
  note t = extract_never_reuses_a_unit[of ?A ?first "''images''" ?next demo_decode "[''w'']" 0 "[]" ?start
      "fst (extract_cmd demo_decode ?start)" "snd (extract_cmd demo_decode ?start)"]
  have a: "''images'' \<in> ?A" "?A - {''images''} \<subset> ?A" using t p by blast+
  have b: "map fst (chosen (snd (extract_cmd demo_decode ?start))) =
      [0..<length (chosen (snd (extract_cmd demo_decode ?start)))]"
    "distinct (map snd (chosen (snd (extract_cmd demo_decode ?start))))"
    using t c0 r by blast+
  have ch: "chosen (snd (extract_cmd demo_decode ?start)) = [(0, ''images''), (1, ''video0'')]"
    by (simp add: demo_run)
  have len: "length (chosen (snd (extract_cmd demo_decode ?start))) = 2" by (simp add: ch)
  show ?thesis using p p2 a b(2) ch b(1)[unfolded len] by (intro conjI)
qed











text \<open>
  Claim C1.  The check of line 234 raises only when \<^verbatim>\<open>input\<close> and \<^verbatim>\<open>output\<close> are both
  missing.  With \<^verbatim>\<open>output\<close> present and \<^verbatim>\<open>input\<close> absent the command passes the check,
  and \<^verbatim>\<open>os.listdir\<close> of the missing directory raises \<^verbatim>\<open>FileNotFoundError\<close>: no usage
  error names the skipped step.
\<close>

theorem extract_input_absent_output_present:
  "extract_cmd demo_decode
     ((session [([''w''], Dir), ([''w'', ''output''], Dir)] [])\<lparr>ctx_working := Some [''w'']\<rparr>) =
   (Inl FileNotFoundError,
    (session [([''w''], Dir), ([''w'', ''output''], Dir)] [])\<lparr>ctx_working := Some [''w'']\<rparr>)"
  by (simp add: extract_cmd_def session_def listdir_def children_def lookup_def)

section \<open>StagingPlanner: transfers and layout\<close>












lemma lookup_add_dirs:
  "lookup (add_dirs fs ds) q =
     (case lookup fs q of Some n \<Rightarrow> Some n | None \<Rightarrow> if q \<in> set ds then Some Dir else None)"
proof -
  have "map_of (map (\<lambda>p. (p, Dir :: 'a node)) ds) q = (if q \<in> set ds then Some Dir else None)"
    by (induction ds) auto
  then show ?thesis
    by (auto simp: add_dirs_def lookup_def map_add_def split: option.splits)
qed















lemma staged_dir_kept:
  "isdir fs0 p \<Longrightarrow> isdir (add_dirs fs0 ds) p"
  by (auto simp: isdir_def lookup_add_dirs)











lemma and_then_pres:
  "P (snd m) \<Longrightarrow> (\<And>r w. P w \<Longrightarrow> P (snd (k r w))) \<Longrightarrow> P (snd (and_then m k))"
  by (cases m) (auto simp: and_then_def split: sum.splits)

lemma click_prompt_curdir [simp]: "curdir (snd (click_prompt conv w)) = curdir w"
  by (auto simp: click_prompt_def split: prod.splits)

lemma echo_curdir [simp]: "curdir (echo s w) = curdir w"
  by (simp add: echo_def)

lemma on_files_curdir [simp]: "curdir (snd (on_files f w)) = curdir w"
  by (auto simp: on_files_def split: sum.splits)

lemma for_each_curdir:
  "(\<And>x w. curdir (snd (body x w)) = curdir w) \<Longrightarrow> curdir (snd (for_each body xs w)) = curdir w"
proof (induction xs arbitrary: w)
  case Nil
  then show ?case by simp
next
  case (Cons x xs)
  obtain r1 w1 where b: "body x w = (r1, w1)" by (cases "body x w") auto
  have "curdir w1 = curdir w" using Cons.prems[of x w] b by simp
  then show ?case using Cons b by (cases r1) auto
qed

lemma select_videos_curdir:
  "curdir (snd (select_videos sniff source ext_vid sel_videos i w)) = curdir w"
proof (induction sniff source ext_vid sel_videos i w rule: select_videos.induct)
  case (1 sniff source ext_vid sel_videos i w)
  show ?case
  proof (cases "i < ext_vid")
    case False
    then show ?thesis by (simp add: select_videos.simps)
  next
    case True
    obtain r w1 where p: "click_prompt (conv_file (files w) (curdir w)) w = (r, w1)"
      by (cases "click_prompt (conv_file (files w) (curdir w)) w") auto
    have c1: "curdir w1 = curdir w" using click_prompt_curdir[of "conv_file (files w) (curdir w)" w] p by simp
    show ?thesis
    proof (cases r)
      case (Inl e)
      then show ?thesis using True p c1 by (subst select_videos.simps) simp
    next
      case (Inr vid)
      show ?thesis
      proof (cases "istype sniff (files w1) source vid ''video''")
        case (Inl e)
        then show ?thesis using True p c1 \<open>r = Inr vid\<close> by (subst select_videos.simps) simp
      next
        case b: (Inr b)
        show ?thesis
        proof (cases b)
          case True
          then have bT: "istype sniff (files w1) source vid ''video'' = Inr True" using b by simp
          show ?thesis
            using "1.IH"(1)[OF \<open>i < ext_vid\<close> p[symmetric] \<open>r = Inr vid\<close> bT] \<open>i < ext_vid\<close> p c1
              \<open>r = Inr vid\<close> bT
            by (subst select_videos.simps) simp
        next
          case False
          then have bF: "istype sniff (files w1) source vid ''video'' = Inr False" using b by simp
          show ?thesis
            using "1.IH"(2)[OF \<open>i < ext_vid\<close> p[symmetric] \<open>r = Inr vid\<close> bF] \<open>i < ext_vid\<close> p c1
              \<open>r = Inr vid\<close> bF
            by (subst select_videos.simps) simp
        qed
      qed
    qed
  qed
qed

lemma setup_select_curdir:
  "curdir (snd (setup_select sniff glob source w)) = curdir w"
  unfolding setup_select_def
  by (intro and_then_pres[where P = "\<lambda>w'. curdir w' = curdir w"])
     (auto simp: select_videos_curdir intro!: and_then_pres[where P = "\<lambda>w'. curdir w' = curdir w"])

lemma setup_stage_curdir:
  "curdir (snd (setup_stage move W source sel_images sel_videos w)) = curdir w
   \<or> curdir (snd (setup_stage move W source sel_images sel_videos w)) = W"
proof (cases "chdir W w")
  case (Pair r1 w1)
  show ?thesis
  proof (cases r1)
    case (Inl e)
    then have "w1 = w" using Pair by (auto simp: chdir_def split: option.splits node.splits)
    then show ?thesis using Pair Inl by (simp add: setup_stage_def)
  next
    case (Inr u)
    then have c: "curdir w1 = W" using Pair by (auto simp: chdir_def split: option.splits node.splits)
    have "curdir (snd (setup_stage move W source sel_images sel_videos w)) = W"
      unfolding setup_stage_def Pair Inr and_then_Inr
      by (intro and_then_pres[where P = "\<lambda>w'. curdir w' = W"])
         (auto simp: c for_each_curdir split_def)
    then show ?thesis by simp
  qed
qed

lemmas setup_eval = setup_cmd_def setup_select_def setup_stage_def demo_session_def session_def
  demo_fs_def star_glob_def by_magic_def istype_def guess_def chdir_def listdir_def children_def
  lookup_def isdir_def path_exists_def click_prompt_def echo_def on_files_def ufunc_def
  shutil_move_def shutil_copy_def basename_def select_videos.simps not_a_video_msg_def
  transferred_msg_def str_eval makedirs.simps mkdir_def Let_def upt_conv_Cons

lemma demo_move_twice:
  "setup_cmd by_magic star_glob True
     (demo_session [ABool False, AInt 2, APath [''clip.mp4''], APath [''clip.mp4'']]) =
   (Inl FileNotFoundError,
    \<lparr>files =
     [([''home''], Dir), ([''s''], Dir),
      ([''s'', ''notes.txt''], File True ''hello''),
      ([''s'', ''a.jpg''], File True ''JPG a''),
      ([''s'', ''second.mp4''], File True ''MP4 more''), ([''w''], Dir),
      ([''w'', ''input''], Dir), ([''w'', ''input'', ''video0''], Dir),
      ([''w'', ''input'', ''video1''], Dir), ([''w'', ''output''], Dir),
      ([''w'', ''input'', ''video0'', ''clip.mp4''], File True ''MP4 clip'')],
     curdir = [''w''], ctx_working = Some [''w''],
     ctx_source = Some [''s''], ctx_dest = None,
     console =
       [''Found 1 images and 2 videos in the source directory.'' @ [CHR 0x0A],
        ''Selected 0 images.'' @ [CHR 0x0A], ''Available videos:'',
        ''  clip.mp4  second.mp4'', ''Selected 2 videos.'' @ [CHR 0x0A],
        ''Moved 0 images to working directory.'' @ [CHR 0x0A]],
     answers = [], chosen = []\<rparr>)"
  by (simp add: setup_eval)

lemma demo_copy_run:
  "setup_cmd by_magic star_glob False
     (demo_session [ABool True, AText ''*'', AInt 1, APath [''notes.txt''], APath [''clip.mp4'']]) =
   (Inr (),
    \<lparr>files = demo_fs @
      [([''w'', ''input''], Dir), ([''w'', ''input'', ''images''], Dir),
       ([''w'', ''input'', ''video0''], Dir), ([''w'', ''output''], Dir),
       ([''w'', ''input'', ''images'', ''a.jpg''], File True ''JPG a''),
       ([''w'', ''input'', ''video0'', ''clip.mp4''], File True ''MP4 clip'')],
     curdir = [''home''], ctx_working = Some [''w''],
     ctx_source = Some [''s''], ctx_dest = None,
     console =
       [''Found 1 images and 2 videos in the source directory.'' @ [CHR 0x0A],
        ''Selected 1 images.'' @ [CHR 0x0A], ''Available videos:'',
        ''  clip.mp4  second.mp4'',
        ''The file you entered (notes.txt) is not a video!'',
        ''Selected 1 videos.'' @ [CHR 0x0A],
        ''Copied 1 images to working directory.'' @ [CHR 0x0A],
        ''Copied 1 videos to working directory.'' @ [CHR 0x0A]],
     answers = [], chosen = []\<rparr>)"
  by (simp add: setup_eval)

lemma demo_nothing_selected:
  "setup_cmd by_magic star_glob False (demo_session [ABool False, AInt 0]) =
   (Inr (),
    \<lparr>files = demo_fs @ [([''w'', ''output''], Dir)],
     curdir = [''home''], ctx_working = Some [''w''],
     ctx_source = Some [''s''], ctx_dest = None,
     console =
       [''Found 1 images and 2 videos in the source directory.'' @ [CHR 0x0A],
        ''Selected 0 images.'' @ [CHR 0x0A], ''Selected 0 videos.'' @ [CHR 0x0A],
        ''Copied 0 images to working directory.'' @ [CHR 0x0A],
        ''Copied 0 videos to working directory.'' @ [CHR 0x0A]],
     answers = [], chosen = []\<rparr>)"
  by (simp add: setup_eval)

text \<open>
  Claim C2, as amended.  A staging command that returns normally leaves the process in
  the directory it was started from.  One that ends with an error leaves it in the
  directory it was started from, in the source directory or in the working directory,
  whichever the command had reached: line 187 is the only place that goes back, and no
  handler leads to it.
\<close>

theorem setup_restores_directory_on_success:
  "(setup_cmd sniff glob move w0 = (Inr (), w') \<longrightarrow> curdir w' = curdir w0)
   \<and> (setup_cmd sniff glob move w0 = (Inl e, w') \<longrightarrow>
        curdir w' = curdir w0 \<or> Some (curdir w') = ctx_source w0
        \<or> Some (curdir w') = ctx_working w0)"
proof (cases "ctx_source w0")
  case None
  then show ?thesis by (auto simp: setup_cmd_def)
next
  case (Some source)
  show ?thesis
  proof (cases "ctx_working w0")
    case None
    then show ?thesis using Some by (auto simp: setup_cmd_def)
  next
    case w: (Some working)
    obtain r1 w1 where c1: "chdir source w0 = (r1, w1)" by (cases "chdir source w0") auto
    show ?thesis
    proof (cases r1)
      case (Inl e1)
      then have "w1 = w0" using c1 by (auto simp: chdir_def split: option.splits node.splits)
      then show ?thesis using Some w c1 Inl by (auto simp: setup_cmd_def)
    next
      case (Inr u1)
      then have cw1: "curdir w1 = source"
        using c1 by (auto simp: chdir_def split: option.splits node.splits)
      obtain r2 w2 where s2: "setup_select sniff glob source w1 = (r2, w2)"
        by (cases "setup_select sniff glob source w1") auto
      have cw2: "curdir w2 = source" using setup_select_curdir[of sniff glob source w1] s2 cw1 by simp
      show ?thesis
      proof (cases r2)
        case (Inl e2)
        then show ?thesis using Some w c1 Inr s2 cw2 by (auto simp: setup_cmd_def)
      next
        case sel: (Inr sel)
        obtain r3 w3 where s3: "setup_stage move working source (fst sel) (snd sel) w2 = (r3, w3)"
          by (cases "setup_stage move working source (fst sel) (snd sel) w2") auto
        have cw3: "curdir w3 = source \<or> curdir w3 = working"
          using setup_stage_curdir[of move working source "fst sel" "snd sel" w2] s3 cw2 by simp
        show ?thesis
        proof (cases r3)
          case (Inl e3)
          then show ?thesis using Some w c1 Inr s2 sel s3 cw3 by (auto simp: setup_cmd_def)
        next
          case u3: (Inr u3)
          have run: "setup_cmd sniff glob move w0 = chdir (curdir w0) w3"
            using Some w c1 Inr s2 sel s3 u3 by (simp add: setup_cmd_def)
          show ?thesis using run cw3 Some w
            by (auto simp: chdir_def split: option.splits node.splits)
        qed
      qed
    qed
  qed
qed

text \<open>A run in copy mode that selects the image and one video, started from \<^verbatim>\<open>/home\<close>.\<close>

theorem setup_restores_directory_witness:
  "setup_cmd by_magic star_glob False
     (demo_session [ABool True, AText ''*'', AInt 1, APath [''notes.txt''], APath [''clip.mp4'']])
     = (Inr (), snd (setup_cmd by_magic star_glob False
     (demo_session [ABool True, AText ''*'', AInt 1, APath [''notes.txt''], APath [''clip.mp4'']])))
   \<and> curdir (snd (setup_cmd by_magic star_glob False
     (demo_session [ABool True, AText ''*'', AInt 1, APath [''notes.txt''], APath [''clip.mp4'']])))
     = curdir (demo_session [ABool True, AText ''*'', AInt 1, APath [''notes.txt''], APath [''clip.mp4'']])
   \<and> curdir (demo_session [ABool True, AText ''*'', AInt 1, APath [''notes.txt''], APath [''clip.mp4'']])
     = [''home'']"
proof -
  let ?s = "demo_session [ABool True, AText ''*'', AInt 1, APath [''notes.txt''], APath [''clip.mp4'']]"
  have r: "setup_cmd by_magic star_glob False ?s = (Inr (), snd (setup_cmd by_magic star_glob False ?s))"
    by (simp add: demo_copy_run)
  have "curdir (snd (setup_cmd by_magic star_glob False ?s)) = curdir ?s"
    using setup_restores_directory_on_success[of by_magic star_glob False ?s
        "snd (setup_cmd by_magic star_glob False ?s)"] r by blast
  moreover have "curdir ?s = [''home'']" by (simp add: demo_session_def)
  ultimately show ?thesis using r by blast
qed

text \<open>
  Claim C2 as stated has the directory restored on every failure path.  In move mode the
  caller names the same video for both of two slots; the second transfer finds its
  source gone and raises, and the process stays in \<^verbatim>\<open>/w\<close>.
\<close>

theorem setup_failure_leaves_working_directory:
  "curdir (demo_session [ABool False, AInt 2, APath [''clip.mp4''], APath [''clip.mp4'']]) = [''home'']
   \<and> fst (setup_cmd by_magic star_glob True
       (demo_session [ABool False, AInt 2, APath [''clip.mp4''], APath [''clip.mp4'']]))
     = Inl FileNotFoundError
   \<and> curdir (snd (setup_cmd by_magic star_glob True
       (demo_session [ABool False, AInt 2, APath [''clip.mp4''], APath [''clip.mp4'']])))
     = [''w'']"
  by (simp add: demo_move_twice) (simp add: demo_session_def)





end
